theory Spec2Isabelle
  imports Main "HOL-Library.Word"
begin

section \<open>Python values\<close>

text \<open>
  A Python \<open>str\<close> is a sequence of Unicode code points, so it is modelled as a list of
  natural numbers (the code points); \<open>u\<close> writes an ASCII literal. The chapter titles hold
  the characters U+7B2C, U+8BDD, U+7279, U+522B and U+7BC7, named below.
  A \<open>bytes\<close> value is a list of 8-bit words.
\<close>

type_synonym pystr = "nat list"

type_synonym bytes = "8 word list"

definition u :: "string \<Rightarrow> pystr" where
  "u s = map of_char s"

definition c_di :: nat where
  "c_di = 31532"

definition c_hua :: nat where
  "c_hua = 35805"

definition tebiepian :: pystr where
  "tebiepian = [29305, 21035, 31687]"

text \<open>The exceptions of the source; \<open>is_RequestException\<close> and \<open>is_OSError\<close> are the
  subclass tests of the \<open>except\<close> clauses: \<open>requests.HTTPError\<close> is a
  \<open>requests.RequestException\<close>, which is an \<open>IOError\<close>, that is, an \<open>OSError\<close>.\<close>

datatype exn =
  RequestException | HTTPError | OSError | ValueError | KeyError | IndexError
  | TypeError | AttributeError

definition is_RequestException :: "exn \<Rightarrow> bool" where
  "is_RequestException e = (e = RequestException \<or> e = HTTPError)"

definition is_OSError :: "exn \<Rightarrow> bool" where
  "is_OSError e = (e = OSError \<or> e = RequestException \<or> e = HTTPError)"

subsection \<open>String methods\<close>

text \<open>\<open>str.isspace\<close>, which is also the class \<open>\s\<close> of \<open>re\<close> on a \<open>str\<close> pattern.\<close>

definition py_isspace :: "nat \<Rightarrow> bool" where
  "py_isspace c =
     ((9 \<le> c \<and> c \<le> 13) \<or> (28 \<le> c \<and> c \<le> 32) \<or> c = 133 \<or> c = 160 \<or> c = 5760
      \<or> (8192 \<le> c \<and> c \<le> 8202) \<or> c = 8232 \<or> c = 8233 \<or> c = 8239 \<or> c = 8287
      \<or> c = 12288)"

text \<open>The class \<open>\d\<close> of \<open>re\<close> on a \<open>str\<close> pattern: the decimal digits of Unicode
  (category Nd, Unicode 15), which come in runs of ten from the code points listed.\<close>

definition nd_starts :: "nat list" where
  "nd_starts =
     [48, 1632, 1776, 1984, 2406, 2534, 2662, 2790, 2918, 3046, 3174, 3302, 3430, 3558,
      3664, 3792, 3872, 4160, 4240, 6112, 6160, 6470, 6608, 6784, 6800, 6992, 7088, 7232,
      7248, 42528, 43216, 43264, 43472, 43504, 43600, 44016, 65296, 66720, 68912, 69734,
      69872, 69942, 70096, 70384, 70736, 70864, 71248, 71360, 71472, 71904, 72016, 72784,
      73040, 73120, 73552, 92768, 92864, 93008, 120782, 120792, 120802, 120812, 120822,
      123200, 123632, 124144, 125264, 130032]"

definition py_isdecimal :: "nat \<Rightarrow> bool" where
  "py_isdecimal c = list_ex (\<lambda>lo. lo \<le> c \<and> c < lo + 10) nd_starts"

definition startswith :: "pystr \<Rightarrow> pystr \<Rightarrow> bool" where
  "startswith s p = (take (length p) s = p)"

definition endswith :: "pystr \<Rightarrow> pystr \<Rightarrow> bool" where
  "endswith s p = (length p \<le> length s \<and> drop (length s - length p) s = p)"

text \<open>\<open>sub in s\<close> for strings.\<close>

fun contains :: "pystr \<Rightarrow> pystr \<Rightarrow> bool" where
  "contains [] sub = (sub = [])"
| "contains (x # xs) sub = (startswith (x # xs) sub \<or> contains xs sub)"

text \<open>\<open>s.split(c)\<close> for a separator of one character: never an empty list.\<close>

fun split_on :: "nat \<Rightarrow> pystr \<Rightarrow> pystr list" where
  "split_on c [] = [[]]"
| "split_on c (x # xs) =
     (if x = c then [] # split_on c xs
      else (case split_on c xs of [] \<Rightarrow> [[x]] | p # ps \<Rightarrow> (x # p) # ps))"

definition strip :: "pystr \<Rightarrow> pystr" where
  "strip s = rev (dropWhile py_isspace (rev (dropWhile py_isspace s)))"

text \<open>\<open>str(n)\<close> for an integer, and the format \<open>{n:0wd}\<close>, which pads with zeros after
  the sign.\<close>

function str_nat :: "nat \<Rightarrow> pystr" where
  "str_nat n = (if n < 10 then [48 + n] else str_nat (n div 10) @ [48 + n mod 10])"
  by pat_completeness auto
termination
  by (relation "measure id") auto

declare str_nat.simps [simp del]

definition str_int :: "int \<Rightarrow> pystr" where
  "str_int i = (if i < 0 then 45 # str_nat (nat (- i)) else str_nat (nat i))"

definition zero_pad :: "nat \<Rightarrow> pystr \<Rightarrow> pystr" where
  "zero_pad w s = replicate (w - length s) 48 @ s"

definition format_0d :: "nat \<Rightarrow> int \<Rightarrow> pystr" where
  "format_0d w i =
     (if i < 0 then 45 # zero_pad (w - 1) (str_nat (nat (- i))) else zero_pad w (str_nat (nat i)))"

text \<open>\<open>s.zfill(w)\<close>: a leading sign stays in front of the zeros.\<close>

definition zfill :: "nat \<Rightarrow> pystr \<Rightarrow> pystr" where
  "zfill w s =
     (case s of
        [] \<Rightarrow> replicate w 48
      | c # r \<Rightarrow> if c = 43 \<or> c = 45 then c # zero_pad (w - 1) r else zero_pad w s)"

section \<open>The chapter\<close>

text \<open>
  The ordinal \<open>episode["ord"]\<close> is a JSON number: an \<open>int\<close>, or a \<open>float\<close> whose \<open>str\<close>
  is sign, integer digits, a dot and the fraction text (\<open>OrdFloat\<close>; a float printed with
  an exponent and no dot is outside this type). \<open>rename_title\<close> overwrites the field with
  the text before the dot, the string \<open>OrdText\<close>.
\<close>

datatype ordv = OrdInt int | OrdFloat bool nat pystr | OrdText bool nat

record token_entry =
  complete_url :: "pystr option"
  url :: "pystr option"

record episode =
  short_title :: pystr
  long_title :: pystr
  title :: pystr
  idx :: int
  ord :: ordv
  save_path :: pystr
  epi_path :: pystr
  exif_setting :: bool
  save_method :: pystr
  imgs_token :: "token_entry list option"

text \<open>What \<open>mainGUI.getConfig\<close> answers for the keys the chapter reads.\<close>

record config =
  rename_rule :: "pystr option"
  img_format :: "pystr option"
  hash_check :: bool

definition signed_text :: "bool \<Rightarrow> nat \<Rightarrow> pystr" where
  "signed_text neg n = (if neg then 45 # str_nat n else str_nat n)"

fun str_ord :: "ordv \<Rightarrow> pystr" where
  "str_ord (OrdInt i) = str_int i"
| "str_ord (OrdFloat neg n frac) = signed_text neg n @ [46] @ frac"
| "str_ord (OrdText neg n) = signed_text neg n"

fun int_ord :: "ordv \<Rightarrow> int" where
  "int_ord (OrdInt i) = i"
| "int_ord (OrdFloat neg n frac) = (if neg then - int n else int n)"
| "int_ord (OrdText neg n) = (if neg then - int n else int n)"

subsection \<open>get_default_title\<close>

text \<open>Lines 157 to 162: the first \<open>if\<close> binds \<open>title\<close>, and the second statement is an
  \<open>if\<close> of its own (not an \<open>elif\<close>) whose two branches both bind it again.\<close>

definition base_title :: "pystr \<Rightarrow> pystr \<Rightarrow> pystr" where
  "base_title short long =
     (let title1 = (if short = long \<or> long = [] then Some short else None);
          title2 = (if startswith long short then Some long else Some (short @ [32] @ long))
      in case title2 of Some t \<Rightarrow> t | None \<Rightarrow> (case title1 of Some t \<Rightarrow> t | None \<Rightarrow> []))"

text \<open>
  The regular expressions all start with \<open>^\<close>, so \<open>re.search\<close> matches at position 0 only
  and \<open>re.sub\<close> replaces at most that one match. Each repetition is followed by a character
  outside its class, so the greedy match is the longest run (\<open>takeWhile\<close>). \<open>$\<close> matches at
  the end of the string or before a newline that ends it.

  \<open>re_num_di\<close> matches \<open>^(\d+)\s+\<close>U+7B2C\<open>(\d+)\<close> and gives the two groups and the text
  after the second.
\<close>

definition at_dollar :: "pystr \<Rightarrow> bool" where
  "at_dollar r = (r = [] \<or> r = [10])"

definition re_num_di :: "pystr \<Rightarrow> (pystr \<times> pystr \<times> pystr) option" where
  "re_num_di t =
     (let g1 = takeWhile py_isdecimal t; r1 = dropWhile py_isdecimal t;
          ws = takeWhile py_isspace r1; r2 = dropWhile py_isspace r1
      in if g1 = [] \<or> ws = [] then None
         else (case r2 of
                 [] \<Rightarrow> None
               | c # r3 \<Rightarrow>
                   if c \<noteq> c_di then None
                   else (let g2 = takeWhile py_isdecimal r3; r4 = dropWhile py_isdecimal r3
                         in if g2 = [] then None else Some (g1, g2, r4))))"

text \<open>Lines 164 to 166.\<close>

definition fix_num_hua :: "pystr \<Rightarrow> pystr" where
  "fix_num_hua t =
     (case re_num_di t of
        Some (g1, g2, c # r5) \<Rightarrow> if c = c_hua \<and> g1 = g2 then c_di # g2 @ c_hua # r5 else t
      | _ \<Rightarrow> t)"

text \<open>Lines 167 to 169.\<close>

definition fix_num_end :: "pystr \<Rightarrow> pystr" where
  "fix_num_end t =
     (case re_num_di t of
        Some (g1, g2, r4) \<Rightarrow> if at_dollar r4 \<and> g1 = g2 then c_di # g2 @ c_hua # r4 else t
      | None \<Rightarrow> t)"

text \<open>Lines 170 and 171: the text after a match of \<open>^\<close>U+7279 U+522B U+7BC7\<open>\s+\<close>U+7279
  U+522B U+7BC7.\<close>

definition re_tebie :: "pystr \<Rightarrow> pystr option" where
  "re_tebie t =
     (if startswith t tebiepian
      then (let r = drop 3 t; ws = takeWhile py_isspace r; r2 = dropWhile py_isspace r
            in if ws \<noteq> [] \<and> startswith r2 tebiepian then Some (drop 3 r2) else None)
      else None)"

definition fix_tebie :: "pystr \<Rightarrow> pystr" where
  "fix_tebie t = (case re_tebie t of Some rest \<Rightarrow> tebiepian @ rest | None \<Rightarrow> t)"

text \<open>Lines 175 to 180: the class \<open>[0-9\-\.]\<close> and the three alternatives.\<close>

definition numchar :: "nat \<Rightarrow> bool" where
  "numchar c = ((48 \<le> c \<and> c \<le> 57) \<or> c = 45 \<or> c = 46)"

definition fix_short_number :: "pystr \<Rightarrow> pystr" where
  "fix_short_number t =
     (let run = takeWhile numchar t; r = dropWhile numchar t
      in if run \<noteq> [] \<and> startswith r [c_hua] \<and> r \<noteq> [] then c_di # run @ r
         else if run \<noteq> [] \<and> startswith r [32] \<and> r \<noteq> [] then c_di # run @ c_hua # r
         else if run \<noteq> [] \<and> at_dollar r then c_di # run @ c_hua # r
         else t)"

definition cleanup :: "pystr \<Rightarrow> pystr" where
  "cleanup t = fix_short_number (fix_tebie (fix_num_end (fix_num_hua t)))"

definition get_default_title :: "episode \<Rightarrow> pystr" where
  "get_default_title e = cleanup (base_title (short_title e) (long_title e))"

subsection \<open>rename_title\<close>

text \<open>One round of the loop over the rules: the state is the chapter (its \<open>ord\<close> is
  overwritten), \<open>decimal\<close> and the title built so far.\<close>

definition split_ord :: "pystr \<Rightarrow> episode \<times> pystr \<Rightarrow> exn + episode \<times> pystr" where
  "split_ord rule st =
     (case st of (e, decimal) \<Rightarrow>
        if endswith rule (u ''ord'') \<and> contains (str_ord (ord e)) [46]
        then (case ord e of
                OrdFloat neg n frac \<Rightarrow>
                  if 46 \<in> set frac then Inl ValueError
                  else Inr (e\<lparr>ord := OrdText neg n\<rparr>, 46 # frac)
              | _ \<Rightarrow> Inr (e, decimal))
        else Inr (e, decimal))"

definition render_rule :: "pystr \<Rightarrow> episode \<Rightarrow> pystr \<Rightarrow> pystr" where
  "render_rule rule e decimal =
     (if rule = u ''default'' then 32 # title e
      else if rule = u ''idx'' then 32 # str_int (idx e)
      else if rule = u ''3idx'' then 32 # format_0d 3 (idx e)
      else if rule = u ''4idx'' then 32 # format_0d 4 (idx e)
      else if rule = u ''ord'' then 32 # str_ord (ord e) @ decimal
      else if rule = u ''3ord'' then 32 # format_0d 3 (int_ord (ord e)) @ decimal
      else if rule = u ''4ord'' then 32 # format_0d 4 (int_ord (ord e)) @ decimal
      else if rule = u ''short'' then 32 # short_title e
      else if rule = u ''long'' then 32 # long_title e
      else [])"

fun apply_rules :: "pystr list \<Rightarrow> episode \<Rightarrow> pystr \<Rightarrow> pystr \<Rightarrow> exn + episode \<times> pystr" where
  "apply_rules [] e decimal acc = Inr (e, acc)"
| "apply_rules (rule # rules) e decimal acc =
     (case split_ord rule (e, decimal) of
        Inl x \<Rightarrow> Inl x
      | Inr (e', decimal') \<Rightarrow> apply_rules rules e' decimal' (acc @ render_rule rule e' decimal'))"

definition rename_title :: "config \<Rightarrow> episode \<Rightarrow> exn + episode" where
  "rename_title cfg e =
     (case rename_rule cfg of
        None \<Rightarrow> Inr e
      | Some rr \<Rightarrow>
          if rr = [] \<or> rr = u ''default'' then Inr e
          else (let rules = split_on 38 rr;
                    e1 = (if long_title e = [] \<and> u ''long'' \<in> set rules \<and> u ''short'' \<notin> set rules
                          then e\<lparr>long_title := short_title e\<rparr> else e);
                    e2 = (if startswith (long_title e1) (short_title e1)
                             \<and> u ''short&long'' \<in> set rules
                          then e1\<lparr>short_title := long_title e1, long_title := []\<rparr> else e1)
                in case apply_rules rules e2 [] [] of
                     Inl x \<Rightarrow> Inl x
                   | Inr (e3, t) \<Rightarrow> Inr (e3\<lparr>title := strip t\<rparr>)))"

section \<open>What the chapter calls\<close>

text \<open>
  The helpers of \<open>src.Utils\<close> (\<open>AES_CBCDecrypt\<close>, \<open>isCheckSumValid\<close>) and the library
  functions whose tables are not part of the repository are parameters. \<open>MAX_RETRY_SMALL\<close>
  and \<open>MAX_RETRY_LARGE\<close> are delays: \<open>retries_small\<close> and \<open>retries_large\<close> are the numbers
  of further attempts that fit into them (the first attempt is always made).
  \<open>piexif_insert\<close> gives \<open>None\<close> where \<open>piexif\<close> raises \<open>InvalidImageDataError\<close>.
\<close>

record lib =
  AES_CBCDecrypt :: "bytes \<Rightarrow> bytes \<Rightarrow> bytes \<Rightarrow> exn + bytes"
  isCheckSumValid :: "pystr \<Rightarrow> bytes \<Rightarrow> bool \<times> pystr"
  b64decode :: "pystr \<Rightarrow> exn + bytes"
  unquote :: "pystr \<Rightarrow> pystr"
  lower :: "pystr \<Rightarrow> pystr"
  path_join :: "pystr \<Rightarrow> pystr \<Rightarrow> pystr"
  piexif_insert :: "bytes \<Rightarrow> bytes option"
  retries_small :: nat
  retries_large :: nat

text \<open>\<open>os.path.join\<close> of \<open>posixpath\<close>, for two components.\<close>

definition posix_join :: "pystr \<Rightarrow> pystr \<Rightarrow> pystr" where
  "posix_join a b =
     (if startswith b [47] \<and> b \<noteq> [] then b
      else if a = [] \<or> endswith a [47] then a @ b
      else a @ [47] @ b)"

subsection \<open>The world outside the chapter\<close>

text \<open>
  The events are the signals emitted to the caller (log lines are not events). The remote
  endpoints are scripts: each request takes the next reply, and a request after the last
  reply fails in transport. A reply carries its status and the fields that the chapter
  reads from it; a body that is not JSON of the expected shape is outside these types. A filesystem call takes the next flag of \<open>io_faults\<close> and raises
  \<open>OSError\<close> when it is set (a simulated fault); without a flag it does not fault.
\<close>

datatype warning =
  ListFailed | TokenFailed | DownloadFailed | ProcessFailed | SaveImgFailed | ClearFailed
  | FolderFailed | PdfFailed | SevenZipFailed | ZipFailed | CbzFailed

datatype event = warning_box warning | confirm_box

datatype 'r reply = TransportError | Reply 'r

record list_response =
  l_status :: nat
  l_images :: "pystr list"

record token_response =
  t_status :: nat
  t_code :: int
  t_data :: "token_entry list"

record img_response =
  i_status :: nat
  i_etag :: "pystr option"
  i_content_type :: "pystr option"
  i_content :: bytes

record world =
  need_sms_verify :: bool
  events :: "event list"
  files :: "pystr \<rightharpoonup> bytes"
  dirs :: "pystr set"
  io_faults :: "bool list"
  list_net :: "list_response reply list"
  token_net :: "token_response reply list"
  img_net :: "img_response reply list"

definition emit :: "event \<Rightarrow> world \<Rightarrow> world" where
  "emit ev w = w\<lparr>events := events w @ [ev]\<rparr>"

text \<open>The decorator \<open>@retry\<close>: the function is called again after any exception, and the
  last exception is raised again when the attempts are used up. \<open>retry n\<close> makes up to
  \<open>n + 1\<close> attempts.\<close>

primrec retry :: "nat \<Rightarrow> ('s \<Rightarrow> (exn + 'a) \<times> 's) \<Rightarrow> 's \<Rightarrow> (exn + 'a) \<times> 's" where
  "retry 0 f s = f s"
| "retry (Suc n) f s = (case f s of (Inr v, s') \<Rightarrow> (Inr v, s') | (Inl x, s') \<Rightarrow> retry n f s')"

subsection \<open>Filesystem calls\<close>

definition io_fault :: "world \<Rightarrow> bool \<times> world" where
  "io_fault w = (case io_faults w of [] \<Rightarrow> (False, w) | b # bs \<Rightarrow> (b, w\<lparr>io_faults := bs\<rparr>))"

definition path_exists :: "pystr \<Rightarrow> world \<Rightarrow> bool" where
  "path_exists p w = (p \<in> dom (files w) \<or> p \<in> dirs w)"

definition os_remove :: "pystr \<Rightarrow> world \<Rightarrow> (exn + unit) \<times> world" where
  "os_remove p w =
     (case io_fault w of
        (True, w') \<Rightarrow> (Inl OSError, w')
      | (False, w') \<Rightarrow>
          (case files w' p of
             None \<Rightarrow> (Inl OSError, w')
           | Some c \<Rightarrow> (Inr (), w'\<lparr>files := (files w')(p := None)\<rparr>)))"

definition os_makedirs :: "pystr \<Rightarrow> world \<Rightarrow> (exn + unit) \<times> world" where
  "os_makedirs p w =
     (case io_fault w of
        (True, w') \<Rightarrow> (Inl OSError, w')
      | (False, w') \<Rightarrow> (Inr (), w'\<lparr>dirs := insert p (dirs w')\<rparr>))"

text \<open>\<open>shutil.move\<close> to a file name: the file at the destination is replaced (a
  destination that is a directory is not modelled).\<close>

definition shutil_move :: "pystr \<Rightarrow> pystr \<Rightarrow> world \<Rightarrow> (exn + unit) \<times> world" where
  "shutil_move src dst w =
     (case io_fault w of
        (True, w') \<Rightarrow> (Inl OSError, w')
      | (False, w') \<Rightarrow>
          (case files w' src of
             None \<Rightarrow> (Inl OSError, w')
           | Some c \<Rightarrow> (Inr (), w'\<lparr>files := ((files w')(src := None))(dst \<mapsto> c)\<rparr>)))"

text \<open>\<open>open(path, "wb")\<close> and \<open>f.write(img)\<close>; a fault leaves the file as it was.\<close>

definition write_file :: "pystr \<Rightarrow> bytes \<Rightarrow> world \<Rightarrow> (exn + unit) \<times> world" where
  "write_file p c w =
     (case io_fault w of
        (True, w') \<Rightarrow> (Inl OSError, w')
      | (False, w') \<Rightarrow> (Inr (), w'\<lparr>files := (files w')(p \<mapsto> c)\<rparr>))"

text \<open>\<open>jpg_exif\<close>: \<open>piexif.insert\<close> rewrites the file; its \<open>InvalidImageDataError\<close> is the
  result \<open>Inr False\<close>, which line 487 catches.\<close>

definition jpg_exif :: "lib \<Rightarrow> pystr \<Rightarrow> world \<Rightarrow> (exn + bool) \<times> world" where
  "jpg_exif L p w =
     (case io_fault w of
        (True, w') \<Rightarrow> (Inl OSError, w')
      | (False, w') \<Rightarrow>
          (case files w' p of
             None \<Rightarrow> (Inl OSError, w')
           | Some c \<Rightarrow>
               (case piexif_insert L c of
                  None \<Rightarrow> (Inr False, w')
                | Some c' \<Rightarrow> (Inr True, w'\<lparr>files := (files w')(p \<mapsto> c')\<rparr>))))"

section \<open>init_imgsList\<close>

text \<open>The inner function of lines 198 to 217, one attempt.\<close>

definition post_image_index :: "world \<Rightarrow> (exn + pystr list) \<times> world" where
  "post_image_index w =
     (case list_net w of
        [] \<Rightarrow> (Inl RequestException, w)
      | r # rs \<Rightarrow>
          (case r of
             TransportError \<Rightarrow> (Inl RequestException, w\<lparr>list_net := rs\<rparr>)
           | Reply res \<Rightarrow>
               if l_status res \<noteq> 200 then (Inl HTTPError, w\<lparr>list_net := rs\<rparr>)
               else (Inr (l_images res), w\<lparr>list_net := rs\<rparr>)))"

text \<open>The dictionary literal of lines 236 to 250, in the order written; in a literal a
  later binding of a key replaces the earlier one.\<close>

definition img_format_list :: "(pystr \<times> pystr) list" where
  "img_format_list =
     [(u ''default'', []),
      (u ''jpg'', u ''@10000w.jpg''),
      (u ''webp'', u ''@10000w.webp''),
      (u ''avif'', u ''@10000w.avif''),
      (u ''1700jpg'', u ''@1700w.jpg''),
      (u ''1400jpg'', u ''@1400w.jpg''),
      (u ''1100jpg'', u ''@1100w.jpg''),
      (u ''1700webp'', u ''@1700w.webp''),
      (u ''1400webp'', u ''@1400w.webp''),
      (u ''1400webp'', u ''@1100w.webp''),
      (u ''1700avif'', u ''@1700w.avif''),
      (u ''1400avif'', u ''@1400w.avif''),
      (u ''1100avif'', u ''@1100w.avif'')]"

definition dict_of :: "('k \<times> 'v) list \<Rightarrow> 'k \<rightharpoonup> 'v" where
  "dict_of kvs = fold (\<lambda>(k, v) m. m(k \<mapsto> v)) kvs Map.empty"

text \<open>Line 252: the lookup is made once for each image of the list.\<close>

fun add_suffix :: "pystr \<Rightarrow> pystr list \<Rightarrow> exn + pystr list" where
  "add_suffix fmt [] = Inr []"
| "add_suffix fmt (img_url # rest) =
     (case dict_of img_format_list fmt of
        None \<Rightarrow> Inl KeyError
      | Some s \<Rightarrow> (case add_suffix fmt rest of Inl x \<Rightarrow> Inl x | Inr ys \<Rightarrow> Inr ((img_url @ s) # ys)))"

text \<open>The inner function of lines 260 to 280, one attempt.\<close>

definition post_image_token :: "world \<Rightarrow> (exn + token_entry list) \<times> world" where
  "post_image_token w =
     (case token_net w of
        [] \<Rightarrow> (Inl RequestException, w)
      | r # rs \<Rightarrow>
          (case r of
             TransportError \<Rightarrow> (Inl RequestException, w\<lparr>token_net := rs\<rparr>)
           | Reply res \<Rightarrow>
               if t_status res \<noteq> 200 \<or> t_code res \<noteq> 0 then (Inl HTTPError, w\<lparr>token_net := rs\<rparr>)
               else (Inr (t_data res), w\<lparr>token_net := rs\<rparr>)))"

text \<open>Lines 298 to 313.\<close>

definition lockout_check :: "token_entry list \<Rightarrow> world \<Rightarrow> (exn + bool) \<times> world" where
  "lockout_check toks w =
     (if need_sms_verify w then (Inr False, w)
      else (case toks of
              [] \<Rightarrow> (Inl IndexError, w)
            | first_img # _ \<Rightarrow>
                (case complete_url first_img of
                   None \<Rightarrow> (Inl TypeError, w)
                 | Some cu \<Rightarrow>
                     if contains cu (u ''token='') then (Inr True, w)
                     else (case url first_img of
                             None \<Rightarrow> (Inl TypeError, w)
                           | Some ur \<Rightarrow>
                               if contains ur (u ''token='') then (Inr True, w)
                               else (Inr False, emit confirm_box (w\<lparr>need_sms_verify := True\<rparr>))))))"

definition init_imgsList ::
  "lib \<Rightarrow> config \<Rightarrow> episode \<Rightarrow> world \<Rightarrow> (exn + bool) \<times> episode \<times> world" where
  "init_imgsList L cfg e w =
     (case retry (retries_small L) post_image_index w of
        (Inl x, w1) \<Rightarrow>
          if is_RequestException x then (Inr False, e, emit (warning_box ListFailed) w1)
          else (Inl x, e, w1)
      | (Inr imgs, w1) \<Rightarrow>
          (case add_suffix (case img_format cfg of None \<Rightarrow> u ''default'' | Some f \<Rightarrow> f) imgs of
             Inl x \<Rightarrow> (Inl x, e, w1)
           | Inr imgs_urls \<Rightarrow>
               (case retry (retries_small L) post_image_token w1 of
                  (Inl x, w2) \<Rightarrow>
                    if is_RequestException x then (Inr False, e, emit (warning_box TokenFailed) w2)
                    else (Inl x, e, w2)
                | (Inr toks, w2) \<Rightarrow>
                    (case lockout_check toks w2 of
                       (r, w3) \<Rightarrow> (r, e\<lparr>imgs_token := Some toks\<rparr>, w3)))))"

section \<open>clearAfterSave and clear\<close>

text \<open>
  Both loops run over \<open>reversed(imgs_path)\<close> while \<open>imgs_path.remove(img)\<close> shortens the
  list: the reverse iterator holds an index, yields the element at it while the index is
  inside the list, and stops otherwise. The first argument is the index plus one.
\<close>

fun clear_loop :: "nat \<Rightarrow> pystr list \<Rightarrow> world \<Rightarrow> (exn + unit) \<times> pystr list \<times> world" where
  "clear_loop 0 imgs_path w = (Inr (), imgs_path, w)"
| "clear_loop (Suc i) imgs_path w =
     (if i < length imgs_path
      then (case os_remove (imgs_path ! i) w of
              (Inl x, w') \<Rightarrow> (Inl x, imgs_path, w')
            | (Inr _, w') \<Rightarrow> clear_loop i (remove1 (imgs_path ! i) imgs_path) w')
      else (Inr (), imgs_path, w))"

definition clear :: "pystr list \<Rightarrow> world \<Rightarrow> (exn + unit) \<times> pystr list \<times> world" where
  "clear imgs_path w = clear_loop (length imgs_path) imgs_path w"




section \<open>saveToFolder\<close>

definition staged_name :: "lib \<Rightarrow> episode \<Rightarrow> nat \<Rightarrow> pystr \<Rightarrow> pystr" where
  "staged_name L e index img_path =
     path_join L (epi_path e) (zfill 3 (str_nat index) @ [46] @ last (split_on 46 img_path))"

text \<open>One round of the loop of lines 461 to 495.\<close>

definition stage_one :: "lib \<Rightarrow> episode \<Rightarrow> nat \<Rightarrow> pystr \<Rightarrow> world \<Rightarrow> (exn + unit) \<times> world" where
  "stage_one L e index img_path w =
     (case (if exif_setting e \<and> last (split_on 46 img_path) = u ''jpg''
            then jpg_exif L img_path w else (Inr False, w)) of
        (Inl x, w1) \<Rightarrow> (Inl x, w1)
      | (Inr b, w1) \<Rightarrow> shutil_move img_path (staged_name L e index img_path) w1)"

fun stage_from :: "lib \<Rightarrow> episode \<Rightarrow> nat \<Rightarrow> pystr list \<Rightarrow> world \<Rightarrow> (exn + unit) \<times> world" where
  "stage_from L e index [] w = (Inr (), w)"
| "stage_from L e index (img_path # rest) w =
     (case stage_one L e index img_path w of
        (Inl x, w') \<Rightarrow> (Inl x, w')
      | (Inr v, w') \<Rightarrow> stage_from L e (Suc index) rest w')"

definition folder_failed :: "exn \<Rightarrow> world \<Rightarrow> (exn + unit) \<times> world" where
  "folder_failed x w =
     (if is_OSError x then (Inr (), emit (warning_box FolderFailed) w) else (Inl x, w))"

definition saveToFolder :: "lib \<Rightarrow> episode \<Rightarrow> pystr list \<Rightarrow> world \<Rightarrow> (exn + unit) \<times> world" where
  "saveToFolder L e imgs_path w =
     (case (if path_exists (epi_path e) w then (Inr (), w) else os_makedirs (epi_path e) w) of
        (Inl x, w1) \<Rightarrow> folder_failed x w1
      | (Inr v, w1) \<Rightarrow>
          (case retry 4 (stage_from L e 1 imgs_path) w1 of
             (Inl x, w2) \<Rightarrow> folder_failed x w2
           | (Inr v', w2) \<Rightarrow> (Inr (), w2)))"

section \<open>save and the containers\<close>



definition m_folder :: pystr where
  "m_folder = [25991, 20214, 22841, 45, 22270, 29255]"
















section \<open>downloadImg\<close>

text \<open>The inner function of lines 646 to 671, one attempt: an empty URL raises before
  any request is made.\<close>

definition get_img :: "pystr \<Rightarrow> world \<Rightarrow> (exn + bytes \<times> pystr \<times> bool) \<times> world" where
  "get_img img_url w =
     (if \<not> contains img_url (u ''token'') \<and> img_url = [] then (Inl RequestException, w)
      else (case img_net w of
              [] \<Rightarrow> (Inl RequestException, w)
            | r # rs \<Rightarrow>
                (case r of
                   TransportError \<Rightarrow> (Inl RequestException, w\<lparr>img_net := rs\<rparr>)
                 | Reply res \<Rightarrow>
                     if i_status res \<noteq> 200 then (Inl HTTPError, w\<lparr>img_net := rs\<rparr>)
                     else (case i_etag res of
                             None \<Rightarrow> (Inl HTTPError, w\<lparr>img_net := rs\<rparr>)
                           | Some md5 \<Rightarrow>
                               if md5 = [] then (Inl HTTPError, w\<lparr>img_net := rs\<rparr>)
                               else (case i_content_type res of
                                       None \<Rightarrow> (Inl AttributeError, w\<lparr>img_net := rs\<rparr>)
                                     | Some ct \<Rightarrow>
                                         (Inr (i_content res, md5, \<not> startswith ct (u ''image/'')),
                                          w\<lparr>img_net := rs\<rparr>))))))"

text \<open>\<open>int.from_bytes\<close> with its default byte order, big-endian.\<close>

definition from_bytes :: "bytes \<Rightarrow> nat" where
  "from_bytes bs = foldl (\<lambda>a b. a * 256 + unat b) 0 bs"

text \<open>The inner function of lines 687 to 702. Its decorator allows one attempt, so an
  exception of it is raised as it is.\<close>

definition decrypt :: "lib \<Rightarrow> pystr \<Rightarrow> bool \<Rightarrow> bytes \<Rightarrow> exn + bytes" where
  "decrypt L cpx hit_encrypt img =
     (if cpx = [] \<or> \<not> hit_encrypt \<or> img = [] then Inr img
      else (case b64decode L (unquote L cpx) of
              Inl x \<Rightarrow> Inl x
            | Inr cpx_char \<Rightarrow>
                (let iv = take 16 (drop 60 cpx_char)
                 in if hd img = 0 then Inl ValueError
                    else (let data_length = from_bytes (take 4 (drop 1 img));
                              key = drop (data_length + 5) img;
                              content = take data_length (drop 5 img)
                          in case AES_CBCDecrypt L (take 20496 content) key iv of
                               Inl x \<Rightarrow> Inl x
                             | Inr head \<Rightarrow> Inr (head @ drop 20496 content)))))"

text \<open>Lines 705 to 713, inside the \<open>try\<close>.\<close>

definition process_img :: "lib \<Rightarrow> config \<Rightarrow> pystr \<Rightarrow> bool \<Rightarrow> pystr \<Rightarrow> bytes \<Rightarrow> exn + bytes" where
  "process_img L cfg cpx hit_encrypt md5 img =
     (case retry 0 (\<lambda>s. (decrypt L cpx hit_encrypt img, s)) () of
        (Inl x, s) \<Rightarrow> Inl x
      | (Inr img', s) \<Rightarrow>
          if hash_check cfg \<and> \<not> fst (isCheckSumValid L md5 img') then Inl HTTPError
          else Inr img')"

text \<open>\<open>s.replace(old, "")\<close> for a non-empty \<open>old\<close>; the first argument counts the
  characters of a match still to be skipped.\<close>

fun remove_all_sub :: "nat \<Rightarrow> pystr \<Rightarrow> pystr \<Rightarrow> pystr" where
  "remove_all_sub k old [] = []"
| "remove_all_sub (Suc k) old (x # xs) = remove_all_sub k old xs"
| "remove_all_sub 0 old (x # xs) =
     (if startswith (x # xs) old then remove_all_sub (length old - 1) old xs
      else x # remove_all_sub 0 old xs)"

text \<open>Lines 729 and 730.\<close>

definition path_to_save :: "lib \<Rightarrow> episode \<Rightarrow> int \<Rightarrow> pystr \<Rightarrow> pystr" where
  "path_to_save L e index img_url =
     (let img_format =
            remove_all_sub 0 (u ''&append='') (lower L (hd (split_on 63 (last (split_on 46 img_url)))))
      in path_join L (save_path e) (str_int (idx e) @ [95] @ str_int index @ [46] @ img_format))"

definition downloadImg ::
  "lib \<Rightarrow> config \<Rightarrow> episode \<Rightarrow> int \<Rightarrow> pystr \<Rightarrow> pystr \<Rightarrow> world \<Rightarrow> (exn + pystr option) \<times> world" where
  "downloadImg L cfg e index img_url cpx w =
     (case retry (retries_large L) (get_img img_url) w of
        (Inl x, w1) \<Rightarrow>
          if is_RequestException x then (Inr None, emit (warning_box DownloadFailed) w1)
          else (Inl x, w1)
      | (Inr (img, md5, hit_encrypt), w1) \<Rightarrow>
          (case process_img L cfg cpx hit_encrypt md5 img of
             Inl x \<Rightarrow>
               if is_OSError x then (Inl x, emit (warning_box ProcessFailed) w1) else (Inl x, w1)
           | Inr img' \<Rightarrow>
               (case retry 4 (write_file (path_to_save L e index img_url) img') w1 of
                  (Inl x, w2) \<Rightarrow>
                    if is_OSError x then (Inr None, emit (warning_box SaveImgFailed) w2)
                    else (Inl x, w2)
                | (Inr v, w2) \<Rightarrow> (Inr (Some (path_to_save L e index img_url)), w2))))"

section \<open>Reference functions and sample values\<close>

text \<open>
  What \<open>saveToFolder\<close> is compared with: the content a staged file holds after the
  optional EXIF insertion, the names that \<open>enumerate(imgs_path, start=index)\<close> gives the
  files, and the file map after all the moves.
\<close>

definition exif_stamp :: "lib \<Rightarrow> episode \<Rightarrow> pystr \<Rightarrow> bytes \<Rightarrow> bytes" where
  "exif_stamp L e img_path c =
     (if exif_setting e \<and> last (split_on 46 img_path) = u ''jpg''
      then (case piexif_insert L c of None \<Rightarrow> c | Some c' \<Rightarrow> c')
      else c)"

fun staged_names :: "lib \<Rightarrow> episode \<Rightarrow> nat \<Rightarrow> pystr list \<Rightarrow> pystr list" where
  "staged_names L e index [] = []"
| "staged_names L e index (img_path # rest) =
     staged_name L e index img_path # staged_names L e (Suc index) rest"

fun staged_files ::
  "lib \<Rightarrow> episode \<Rightarrow> nat \<Rightarrow> pystr list \<Rightarrow> (pystr \<rightharpoonup> bytes) \<Rightarrow> (pystr \<rightharpoonup> bytes)" where
  "staged_files L e index [] f = f"
| "staged_files L e index (img_path # rest) f =
     staged_files L e (Suc index) rest
       ((f(img_path := None))(staged_name L e index img_path
          \<mapsto> exif_stamp L e img_path (the (f img_path))))"



text \<open>The number that a string of decimal digits writes.\<close>

definition digits_value :: "pystr \<Rightarrow> nat" where
  "digits_value s = foldl (\<lambda>a d. 10 * a + (d - 48)) 0 s"

text \<open>
  A library, a configuration, a chapter and an empty world for concrete runs. Of the sample
  library, \<open>b64decode\<close> is \<open>base64.b64decode\<close> on the two strings it accepts (104 times
  \<open>A\<close> decodes to 78 zero bytes, \<open>AAAA\<close> to three) and \<open>unquote\<close> is \<open>urllib.parse.unquote\<close> on
  strings without a percent sign; \<open>AES_CBCDecrypt\<close> and \<open>isCheckSumValid\<close> are stand-ins.
\<close>

definition ex_lib :: lib where
  "ex_lib =
     \<lparr>AES_CBCDecrypt = (\<lambda>c k iv. Inr (rev c @ k @ iv)), isCheckSumValid = (\<lambda>m b. (True, m)),
      b64decode = (\<lambda>s. if s = replicate 104 65 then Inr (replicate 78 0)
                        else if s = u ''AAAA'' then Inr [0, 0, 0] else Inl ValueError),
      unquote = (\<lambda>s. s), lower = (\<lambda>s. s),
      path_join = posix_join, piexif_insert = (\<lambda>b. None), retries_small = 2,
      retries_large = 2\<rparr>"


definition ex_cfg :: config where
  "ex_cfg = \<lparr>rename_rule = None, img_format = None, hash_check = False\<rparr>"

definition ex_episode :: episode where
  "ex_episode =
     \<lparr>short_title = u ''1'', long_title = [], title = [c_di, 49, c_hua, 32], idx = 1,
      ord = OrdInt 1, save_path = u ''/m'', epi_path = u ''/m/c'', exif_setting = False,
      save_method = m_folder, imgs_token = None\<rparr>"

definition ex_world :: world where
  "ex_world =
     \<lparr>need_sms_verify = False, events = [], files = Map.empty, dirs = {}, io_faults = [],
      list_net = [], token_net = [], img_net = []\<rparr>"

section \<open>Auxiliary facts\<close>

lemma u_simps: "u [] = []" "u (c # cs) = of_char c # u cs"
  by (simp_all add: u_def)

lemma startswith_append: "startswith (p @ s) p"
  by (simp add: startswith_def)

lemma retry_first_ok: "f s = (Inr v, s') \<Longrightarrow> retry n f s = (Inr v, s')"
  by (cases n) simp_all


lemma from_bytes_4:
  "from_bytes [a, b, c, d] = unat a * 16777216 + unat b * 65536 + unat c * 256 + unat d"
  by (simp add: from_bytes_def)


lemma io_fault_frame:
  "io_fault w = (b, w') \<Longrightarrow>
     need_sms_verify w' = need_sms_verify w \<and> events w' = events w \<and> files w' = files w
     \<and> dirs w' = dirs w"
  by (auto simp: io_fault_def split: list.splits)

lemma os_remove_frame:
  "os_remove p w = (r, w') \<Longrightarrow> need_sms_verify w' = need_sms_verify w \<and> events w' = events w"
  by (auto simp: os_remove_def split: prod.splits bool.splits option.splits dest: io_fault_frame)











lemma add_suffix_KeyError:
  "dict_of img_format_list fmt = None \<Longrightarrow> imgs \<noteq> [] \<Longrightarrow> add_suffix fmt imgs = Inl KeyError"
  by (cases imgs) simp_all








lemma clear_loop_frame:
  "need_sms_verify (snd (snd (clear_loop i imgs w))) = need_sms_verify w
   \<and> events (snd (snd (clear_loop i imgs w))) = events w"
proof (induction i arbitrary: imgs w)
  case 0
  show ?case by simp
next
  case (Suc i)
  show ?case
  proof (cases "i < length imgs")
    case False
    then show ?thesis by simp
  next
    case True
    obtain r w' where o: "os_remove (imgs ! i) w = (r, w')" by (cases "os_remove (imgs ! i) w")
    show ?thesis
      using True o os_remove_frame [OF o] Suc.IH [of "remove1 (imgs ! i) imgs" w']
      by (cases r) simp_all
  qed
qed

lemma os_remove_exn: "os_remove p w = (Inl x, w') \<Longrightarrow> x = OSError"
  by (auto simp: os_remove_def split: prod.splits bool.splits option.splits)

lemma clear_loop_exn: "fst (clear_loop i imgs w) = Inl x \<Longrightarrow> x = OSError"
proof (induction i arbitrary: imgs w)
  case 0
  then show ?case by simp
next
  case (Suc i)
  show ?case
  proof (cases "i < length imgs")
    case False
    with Suc.prems show ?thesis by simp
  next
    case True
    obtain r w' where o: "os_remove (imgs ! i) w = (r, w')" by (cases "os_remove (imgs ! i) w")
    show ?thesis
    proof (cases r)
      case (Inl y)
      with Suc.prems True o os_remove_exn [of "imgs ! i" w y w'] show ?thesis by simp
    next
      case (Inr v)
      with Suc.prems True o Suc.IH [of "remove1 (imgs ! i) imgs" w'] show ?thesis by simp
    qed
  qed
qed

lemma os_remove_ok:
  "io_faults w = [] \<Longrightarrow> files w p = Some c \<Longrightarrow>
     os_remove p w = (Inr (), w\<lparr>files := (files w)(p := None)\<rparr>)"
  by (simp add: os_remove_def io_fault_def)

lemma clear_loop_ok:
  "io_faults w = [] \<Longrightarrow> distinct imgs \<Longrightarrow> set imgs \<subseteq> dom (files w) \<Longrightarrow>
     clear_loop (length imgs) imgs w
     = (Inr (), [], w\<lparr>files := (\<lambda>p. if p \<in> set imgs then None else files w p)\<rparr>)"
proof (induction imgs arbitrary: w rule: rev_induct)
  case Nil
  show ?case by simp
next
  case (snoc x xs)
  from snoc.prems obtain c where c: "files w x = Some c" by auto
  let ?w = "w\<lparr>files := (files w)(x := None)\<rparr>"
  have r: "remove1 x (xs @ [x]) = xs"
    using snoc.prems(2) by (simp add: remove1_append)
  have ih: "clear_loop (length xs) xs ?w
            = (Inr (), [], ?w\<lparr>files := (\<lambda>p. if p \<in> set xs then None else files ?w p)\<rparr>)"
    using snoc.prems by (intro snoc.IH) auto
  have "(\<lambda>p. if p \<in> set xs then None else files ?w p)
        = (\<lambda>p. if p \<in> set (xs @ [x]) then None else files w p)"
    by auto
  with ih show ?case
    using os_remove_ok [OF snoc.prems(1) c] by (simp add: r)
qed



















lemma c_di_classes: "\<not> py_isdecimal c_di" "\<not> numchar c_di" "c_di \<noteq> 29305"
  by (simp_all add: py_isdecimal_def nd_starts_def numchar_def c_di_def)

lemma te_classes: "\<not> py_isdecimal 29305" "\<not> numchar 29305"
  by (simp_all add: py_isdecimal_def nd_starts_def numchar_def)

lemma re_num_di_nondigit: "\<not> py_isdecimal c \<Longrightarrow> re_num_di (c # r) = None"
  by (simp add: re_num_di_def)

lemma cleanup_di: "cleanup (c_di # r) = c_di # r"
  by (simp add: cleanup_def fix_num_hua_def fix_num_end_def fix_tebie_def fix_short_number_def
      re_num_di_nondigit c_di_classes re_tebie_def startswith_def tebiepian_def)

lemma fix_num_hua_cases: "fix_num_hua t = t \<or> (\<exists>r. fix_num_hua t = c_di # r)"
proof (cases "re_num_di t")
  case None
  then show ?thesis by (simp add: fix_num_hua_def)
next
  case (Some m)
  obtain g1 g2 r4 where m: "m = (g1, g2, r4)" by (cases m)
  show ?thesis
    using Some m by (cases r4) (simp_all add: fix_num_hua_def)
qed

lemma fix_num_end_cases: "fix_num_end t = t \<or> (\<exists>r. fix_num_end t = c_di # r)"
proof (cases "re_num_di t")
  case None
  then show ?thesis by (simp add: fix_num_end_def)
next
  case (Some m)
  obtain g1 g2 r4 where m: "m = (g1, g2, r4)" by (cases m)
  show ?thesis
    using Some m by (simp add: fix_num_end_def)
qed

lemma fix_short_number_cases: "fix_short_number t = t \<or> (\<exists>r. fix_short_number t = c_di # r)"
proof -
  define run where "run = takeWhile numchar t"
  define r where "r = dropWhile numchar t"
  have e: "fix_short_number t =
       (if run \<noteq> [] \<and> startswith r [c_hua] \<and> r \<noteq> [] then c_di # run @ r
         else if run \<noteq> [] \<and> startswith r [32] \<and> r \<noteq> [] then c_di # run @ c_hua # r
         else if run \<noteq> [] \<and> at_dollar r then c_di # run @ c_hua # r
         else t)"
    by (simp only: fix_short_number_def Let_def run_def r_def)
  show ?thesis
    unfolding e by (simp only: split: if_split) blast
qed

lemma fix_tebie_cases: "fix_tebie t = t \<or> (\<exists>r. fix_tebie t = 29305 # r)"
  by (cases "re_tebie t") (simp_all add: fix_tebie_def tebiepian_def)

lemma fix_te: "fix_num_hua (29305 # r) = 29305 # r" "fix_num_end (29305 # r) = 29305 # r"
  "fix_short_number (29305 # r) = 29305 # r"
  by (simp_all add: fix_num_hua_def fix_num_end_def fix_short_number_def re_num_di_nondigit
      te_classes)

lemma cleanup_fixed:
  "fix_num_hua t = t \<Longrightarrow> fix_num_end t = t \<Longrightarrow> fix_tebie t = t \<Longrightarrow> fix_short_number t = t
     \<Longrightarrow> cleanup t = t"
  by (simp add: cleanup_def)

lemma cleanup_idem:
  assumes "re_tebie (cleanup t) = None"
  shows "cleanup (cleanup t) = cleanup t"
proof -
  let ?a = "fix_num_hua t"
  let ?b = "fix_num_end ?a"
  let ?c = "fix_tebie ?b"
  let ?d = "fix_short_number ?c"
  have d: "cleanup t = ?d" by (simp add: cleanup_def)
  have "(\<exists>r. ?d = c_di # r)
        \<or> (?d = ?c \<and> (\<exists>r. ?c = 29305 # r))
        \<or> (?d = ?c \<and> ?c = ?b \<and> (\<exists>r. ?b = c_di # r))
        \<or> (?d = ?c \<and> ?c = ?b \<and> ?b = ?a \<and> (\<exists>r. ?a = c_di # r))
        \<or> (?d = ?c \<and> ?c = ?b \<and> ?b = ?a \<and> ?a = t)"
    using fix_short_number_cases [of ?c] fix_tebie_cases [of ?b] fix_num_end_cases [of ?a]
      fix_num_hua_cases [of t] by argo
  then consider r where "?d = c_di # r"
    | "?d = ?c" "\<exists>r. ?c = 29305 # r"
    | "?d = ?c" "?c = ?b" "\<exists>r. ?b = c_di # r"
    | "?d = ?c" "?c = ?b" "?b = ?a" "\<exists>r. ?a = c_di # r"
    | "?d = ?c" "?c = ?b" "?b = ?a" "?a = t"
    by blast
  then show ?thesis
  proof cases
    case 1
    then show ?thesis by (simp add: d cleanup_di)
  next
    case 2
    then obtain r where r: "?d = 29305 # r" by auto
    from assms have "re_tebie (29305 # r) = None"
      by (simp only: d r)
    then have "fix_tebie (29305 # r) = 29305 # r"
      by (simp add: fix_tebie_def)
    then have "cleanup (29305 # r) = 29305 # r"
      by (intro cleanup_fixed) (simp_all add: fix_te)
    then show ?thesis by (simp add: d r)
  next
    case 3
    then show ?thesis by (auto simp: d cleanup_di)
  next
    case 4
    then show ?thesis by (auto simp: d cleanup_di)
  next
    case 5
    then have "cleanup t = t" by (simp add: cleanup_def)
    then show ?thesis by simp
  qed
qed

lemma io_fault_none: "io_faults w = [] \<Longrightarrow> io_fault w = (False, w)"
  by (simp add: io_fault_def)

lemma stage_one_ok:
  assumes "io_faults w = []" and "files w p = Some c"
  shows "stage_one L e i p w
         = (Inr (), w\<lparr>files := ((files w)(p := None))(staged_name L e i p \<mapsto> exif_stamp L e p c)\<rparr>)"
proof (cases "exif_setting e \<and> last (split_on 46 p) = u ''jpg''")
  case False
  then show ?thesis
    using assms by (auto simp: stage_one_def shutil_move_def io_fault_none exif_stamp_def)
next
  case True
  show ?thesis
  proof (cases "piexif_insert L c")
    case None
    with True assms show ?thesis
      by (simp add: stage_one_def jpg_exif_def shutil_move_def io_fault_none exif_stamp_def)
  next
    case (Some c')
    with True assms show ?thesis
      by (simp add: stage_one_def jpg_exif_def shutil_move_def io_fault_def exif_stamp_def)
  qed
qed

lemma stage_from_ok:
  "io_faults w = [] \<Longrightarrow> distinct ps \<Longrightarrow> set ps \<subseteq> dom (files w) \<Longrightarrow>
     stage_from L e k ps w = (Inr (), w\<lparr>files := staged_files L e k ps (files w)\<rparr>)"
proof (induction ps arbitrary: k w)
  case Nil
  show ?case by simp
next
  case (Cons p ps)
  from Cons.prems obtain c where c: "files w p = Some c" by auto
  let ?w1 = "w\<lparr>files := ((files w)(p := None))(staged_name L e k p \<mapsto> exif_stamp L e p c)\<rparr>"
  have s: "stage_one L e k p w = (Inr (), ?w1)"
    using Cons.prems(1) c by (rule stage_one_ok)
  have "stage_from L e (Suc k) ps ?w1
        = (Inr (), ?w1\<lparr>files := staged_files L e (Suc k) ps (files ?w1)\<rparr>)"
    using Cons.prems by (intro Cons.IH) auto
  then show ?case by (simp add: s c)
qed

lemma staged_files_frame:
  "q \<notin> set ps \<Longrightarrow> q \<notin> set (staged_names L e k ps) \<Longrightarrow> staged_files L e k ps f q = f q"
  by (induction ps arbitrary: k f) auto

lemma staged_files_dom:
  "set (staged_names L e k ps) \<inter> set ps = {} \<Longrightarrow>
     dom (staged_files L e k ps f) = (dom f - set ps) \<union> set (staged_names L e k ps)"
proof (induction ps arbitrary: k f)
  case Nil
  show ?case by simp
next
  case (Cons p ps)
  let ?f1 = "(f(p := None))(staged_name L e k p \<mapsto> exif_stamp L e p (the (f p)))"
  have "set (staged_names L e (Suc k) ps) \<inter> set ps = {}"
    using Cons.prems by auto
  then have "dom (staged_files L e (Suc k) ps ?f1)
             = (dom ?f1 - set ps) \<union> set (staged_names L e (Suc k) ps)"
    by (rule Cons.IH)
  moreover have "staged_name L e k p \<notin> set ps"
    using Cons.prems by auto
  ultimately show ?case by auto
qed

lemma staged_files_content:
  "distinct ps \<Longrightarrow> distinct (staged_names L e k ps) \<Longrightarrow>
   set (staged_names L e k ps) \<inter> set ps = {} \<Longrightarrow> i < length ps \<Longrightarrow>
     staged_files L e k ps f (staged_name L e (k + i) (ps ! i))
     = Some (exif_stamp L e (ps ! i) (the (f (ps ! i))))"
proof (induction ps arbitrary: k f i)
  case Nil
  then show ?case by simp
next
  case (Cons p ps)
  let ?t = "staged_name L e k p"
  let ?f1 = "(f(p := None))(?t \<mapsto> exif_stamp L e p (the (f p)))"
  show ?case
  proof (cases i)
    case 0
    have "staged_files L e (Suc k) ps ?f1 ?t = ?f1 ?t"
      using Cons.prems by (intro staged_files_frame) auto
    then show ?thesis using 0 by simp
  next
    case (Suc j)
    have j: "j < length ps" using Cons.prems(4) Suc by simp
    have d: "distinct ps" "distinct (staged_names L e (Suc k) ps)"
      "set (staged_names L e (Suc k) ps) \<inter> set ps = {}"
      using Cons.prems by auto
    have ih: "staged_files L e (Suc k) ps ?f1 (staged_name L e (Suc k + j) (ps ! j))
          = Some (exif_stamp L e (ps ! j) (the (?f1 (ps ! j))))"
      using d j by (rule Cons.IH)
    have m: "ps ! j \<in> set ps" using j by simp
    have "p \<notin> set ps" using Cons.prems(1) by simp
    moreover have "?t \<notin> set ps" using Cons.prems(3) by simp
    ultimately have "?f1 (ps ! j) = f (ps ! j)" using m by auto
    with ih show ?thesis using Suc by simp
  qed
qed

lemma str_nat_head: "hd (str_nat m) \<noteq> 43 \<and> hd (str_nat m) \<noteq> 45 \<and> str_nat m \<noteq> []"
proof (induction m rule: str_nat.induct)
  case (1 m)
  show ?case
  proof (cases "m < 10")
    case True
    then show ?thesis by (subst (1 2 3) str_nat.simps) simp
  next
    case False
    then have "str_nat m = str_nat (m div 10) @ [48 + m mod 10]"
      by (subst str_nat.simps) simp
    with 1 False show ?thesis by simp
  qed
qed

lemma str_nat_small: "n < 10 \<Longrightarrow> str_nat n = [48 + n]"
  by (subst str_nat.simps) simp

lemma str_nat_step: "\<not> n < 10 \<Longrightarrow> str_nat n = str_nat (n div 10) @ [48 + n mod 10]"
  by (subst str_nat.simps) simp

lemma zfill_str_nat: "zfill w (str_nat n) = zero_pad w (str_nat n)"
  using str_nat_head [of n] by (cases "str_nat n") (simp_all add: zfill_def)

lemma zfill_3_digits:
  "zfill 3 (str_nat n)
   = (if n < 10 then [48, 48, 48 + n]
      else if n < 100 then [48, 48 + n div 10, 48 + n mod 10]
      else str_nat n)"
proof -
  consider "n < 10" | "\<not> n < 10" "n < 100" | "\<not> n < 100" by linarith
  then show ?thesis
  proof cases
    case 1
    have "replicate (3 - length [48 + n]) 48 = [48, 48::nat]"
      by (simp add: numeral_2_eq_2)
    with 1 show ?thesis unfolding zfill_str_nat by (simp add: zero_pad_def str_nat_small)
  next
    case 2
    then have "n div 10 < 10" by simp
    then have "str_nat n = [48 + n div 10, 48 + n mod 10]"
      using 2(1) by (simp add: str_nat_step str_nat_small)
    moreover have "replicate (3 - length [48 + n div 10, 48 + n mod 10]) 48 = [48::nat]"
      by simp
    ultimately show ?thesis unfolding zfill_str_nat using 2 by (simp add: zero_pad_def)
  next
    case 3
    then have "\<not> n < 10" and "\<not> n div 10 < 10" by simp_all
    then have "str_nat n = str_nat (n div 10 div 10) @ [48 + n div 10 mod 10, 48 + n mod 10]"
      by (simp add: str_nat_step)
    moreover have "str_nat (n div 10 div 10) \<noteq> []"
      using str_nat_head by simp
    ultimately have "3 \<le> length (str_nat n)"
      by (cases "str_nat (n div 10 div 10)") simp_all
    with 3 show ?thesis unfolding zfill_str_nat by (simp add: zero_pad_def)
  qed
qed

lemma zfill_examples:
  "zfill 3 (str_nat 1) = u ''001''" "zfill 3 (str_nat 12) = u ''012''"
  "zfill 3 (str_nat 123) = u ''123''"
proof -
  show "zfill 3 (str_nat 1) = u ''001''" "zfill 3 (str_nat 12) = u ''012''"
    by (simp_all add: zfill_3_digits u_simps)
  have "str_nat 123 = u ''123''"
    by (simp add: str_nat_step str_nat_small u_simps)
  moreover have "zfill 3 (str_nat 123) = str_nat 123"
    by (simp add: zfill_3_digits)
  ultimately show "zfill 3 (str_nat 123) = u ''123''" by (simp only:)
qed

lemma digits_value_snoc: "digits_value (s @ [d]) = 10 * digits_value s + (d - 48)"
  by (simp add: digits_value_def)

lemma digits_value_str_nat: "digits_value (str_nat n) = n"
proof (induction n rule: str_nat.induct)
  case (1 n)
  show ?case
  proof (cases "n < 10")
    case True
    then show ?thesis by (simp add: str_nat_small digits_value_def)
  next
    case False
    with 1 show ?thesis by (simp add: str_nat_step digits_value_snoc)
  qed
qed

lemma foldl_zeros: "foldl (\<lambda>a d. 10 * a + (d - 48)) 0 (replicate k (48::nat)) = (0::nat)"
  by (induction k) simp_all

lemma digits_value_zero_pad: "digits_value (zero_pad w s) = digits_value s"
  by (simp add: digits_value_def zero_pad_def foldl_zeros)

lemma digits_value_zfill: "digits_value (zfill w (str_nat n)) = n"
  by (simp add: zfill_str_nat digits_value_zero_pad digits_value_str_nat)

lemma str_nat_no_dot: "46 \<notin> set (str_nat n)"
proof (induction n rule: str_nat.induct)
  case (1 n)
  show ?case
  proof (cases "n < 10")
    case True
    then show ?thesis by (simp add: str_nat_small)
  next
    case False
    with 1 show ?thesis by (simp add: str_nat_step)
  qed
qed

lemma zfill_no_dot: "46 \<notin> set (zfill w (str_nat n))"
  using str_nat_no_dot [of n] by (auto simp: zfill_str_nat zero_pad_def)

lemma before_dot: "46 \<notin> set xs \<Longrightarrow> takeWhile (\<lambda>c. c \<noteq> 46) (xs @ [46] @ x) = xs"
  by (induction xs) auto

lemma index_name_inj:
  assumes "zfill 3 (str_nat i) @ [46] @ x = zfill 3 (str_nat j) @ [46] @ y"
  shows "i = j"
proof -
  have "takeWhile (\<lambda>c. c \<noteq> 46) (zfill 3 (str_nat i) @ [46] @ x)
        = takeWhile (\<lambda>c. c \<noteq> 46) (zfill 3 (str_nat j) @ [46] @ y)"
    using assms by (simp only:)
  then have "zfill 3 (str_nat i) = zfill 3 (str_nat j)"
    by (simp only: before_dot [OF zfill_no_dot])
  then have "digits_value (zfill 3 (str_nat i)) = digits_value (zfill 3 (str_nat j))"
    by (simp only:)
  then show ?thesis by (simp only: digits_value_zfill)
qed

lemma clear_loop_suffix:
  "io_faults w = [] \<Longrightarrow> distinct (xs @ ys) \<Longrightarrow> set ys \<subseteq> dom (files w) \<Longrightarrow>
     clear_loop (length (xs @ ys)) (xs @ ys) w
     = clear_loop (length xs) xs (w\<lparr>files := (\<lambda>p. if p \<in> set ys then None else files w p)\<rparr>)"
proof (induction ys arbitrary: w rule: rev_induct)
  case Nil
  show ?case by simp
next
  case (snoc y ys)
  from snoc.prems obtain c where c: "files w y = Some c" by auto
  let ?w = "w\<lparr>files := (files w)(y := None)\<rparr>"
  have n: "(xs @ ys @ [y]) ! length (xs @ ys) = y"
    by (simp add: nth_append)
  have r: "remove1 y (xs @ ys @ [y]) = xs @ ys"
    using snoc.prems(2) by (simp add: remove1_append)
  have ih: "clear_loop (length (xs @ ys)) (xs @ ys) ?w
            = clear_loop (length xs) xs
                (?w\<lparr>files := (\<lambda>p. if p \<in> set ys then None else files ?w p)\<rparr>)"
    using snoc.prems by (intro snoc.IH) auto
  have f: "(\<lambda>p. if p \<in> set ys then None else files ?w p)
           = (\<lambda>p. if p \<in> set (ys @ [y]) then None else files w p)"
    by auto
  have "clear_loop (length (xs @ ys @ [y])) (xs @ ys @ [y]) w
        = clear_loop (length (xs @ ys)) (xs @ ys) ?w"
    using os_remove_ok [OF snoc.prems(1) c] n r by simp
  with ih f show ?case by simp
qed

lemma clear_loop_missing:
  assumes "io_faults w = []" and "distinct (xs @ [p] @ ys)" and "set ys \<subseteq> dom (files w)"
    and "files w p = None"
  shows "clear_loop (length (xs @ [p] @ ys)) (xs @ [p] @ ys) w
         = (Inl OSError, xs @ [p],
            w\<lparr>files := (\<lambda>q. if q \<in> set ys then None else files w q)\<rparr>)"
proof -
  let ?w = "w\<lparr>files := (\<lambda>q. if q \<in> set ys then None else files w q)\<rparr>"
  have "clear_loop (length ((xs @ [p]) @ ys)) ((xs @ [p]) @ ys) w
        = clear_loop (length (xs @ [p])) (xs @ [p]) ?w"
    using assms(1-3) by (intro clear_loop_suffix) simp_all
  moreover have "os_remove p ?w = (Inl OSError, ?w)"
    using assms(1,4) by (simp add: os_remove_def io_fault_def)
  ultimately show ?thesis by simp
qed





























text \<open>The slices of the decoding step.\<close>

lemma drop_plus_5: "drop (n + 5) (x # xs) = drop (n + 4) xs"
  by (simp add: drop_Cons' add.commute)

lemma decrypt_nonzero:
  assumes "cpx \<noteq> []" and "flag \<noteq> 0"
  shows "decrypt L cpx True (flag # rest)
         = (case b64decode L (unquote L cpx) of
              Inl x \<Rightarrow> Inl x
            | Inr cpx_char \<Rightarrow>
                (case AES_CBCDecrypt L (take 20496 (take (from_bytes (take 4 rest)) (drop 4 rest)))
                        (drop (from_bytes (take 4 rest) + 4) rest) (take 16 (drop 60 cpx_char)) of
                   Inl x \<Rightarrow> Inl x
                 | Inr head \<Rightarrow>
                     Inr (head @ drop 20496 (take (from_bytes (take 4 rest)) (drop 4 rest)))))"
  using assms
  by (cases "b64decode L (unquote L cpx)") (simp_all add: decrypt_def Let_def drop_plus_5)

lemma decrypt_framed:
  assumes "cpx \<noteq> []" and "flag \<noteq> 0" and "b64decode L (unquote L cpx) = Inr cpx_char"
    and "rest = [a, b, c, d] @ ct @ key" and "from_bytes [a, b, c, d] = length ct"
  shows "decrypt L cpx True (flag # rest)
         = (case AES_CBCDecrypt L (take 20496 ct) key (take 16 (drop 60 cpx_char)) of
              Inl x \<Rightarrow> Inl x
            | Inr head \<Rightarrow> Inr (head @ drop 20496 ct))"
proof -
  have n: "from_bytes (take 4 rest) = length ct"
    using assms(4,5) by simp
  have "drop (length ct + 4) rest = drop (length ct) (drop 4 rest)"
    by (simp only: drop_drop)
  then have k: "drop (length ct + 4) rest = key"
    using assms(4) by simp
  have t: "take (length ct) (drop 4 rest) = ct"
    using assms(4) by simp
  show ?thesis
    unfolding decrypt_nonzero [OF assms(1,2)] assms(3) n k t by simp
qed

section \<open>The claims\<close>

text \<open>
  C1. The claim: a checksum mismatch in \<open>downloadImg\<close> restarts the download, at least once,
  before the call gives up with its sentinel. The code: with the integrity check on, a
  reply whose recomputed checksum differs from its Etag makes \<open>downloadImg\<close> emit the
  warning of line 719 and raise \<open>HTTPError\<close>; exactly one reply has been requested, and the
  replies \<open>rest\<close> that the endpoint would serve next are never asked for, whatever the
  retry budget \<open>retries_large\<close> is. The check of lines 706 to 713 stands outside every
  \<open>@retry\<close> function.
\<close>

theorem downloadImg_checksum_mismatch:
  "downloadImg (L\<lparr>isCheckSumValid := (\<lambda>md5 img. (False, img_md5))\<rparr>) (cfg\<lparr>hash_check := True\<rparr>)
       e index (c # img_url) cpx
       (w\<lparr>img_net := Reply \<lparr>i_status = 200, i_etag = Some (m # md5),
                              i_content_type = Some (u ''image/'' @ ct), i_content = img\<rparr> # rest\<rparr>)
   = (Inl HTTPError, emit (warning_box ProcessFailed) (w\<lparr>img_net := rest\<rparr>))"
proof -
  let ?L = "L\<lparr>isCheckSumValid := (\<lambda>md5 img. (False, img_md5))\<rparr>"
  let ?w = "w\<lparr>img_net := Reply \<lparr>i_status = 200, i_etag = Some (m # md5),
                              i_content_type = Some (u ''image/'' @ ct), i_content = img\<rparr> # rest\<rparr>"
  have g: "get_img (c # img_url) ?w = (Inr (img, m # md5, False), w\<lparr>img_net := rest\<rparr>)"
    by (simp add: get_img_def startswith_append)
  have r: "retry (retries_large ?L) (get_img (c # img_url)) ?w
           = (Inr (img, m # md5, False), w\<lparr>img_net := rest\<rparr>)"
    using g by (rule retry_first_ok)
  have p: "process_img ?L (cfg\<lparr>hash_check := True\<rparr>) cpx False (m # md5) img = Inl HTTPError"
    by (simp add: process_img_def decrypt_def)
  show ?thesis
    unfolding downloadImg_def r by (simp add: p is_OSError_def)
qed




text \<open>
  C3. The claim: with the rule \<open>short&long\<close> and a long title that starts with the short
  title, the rendered title holds the short title once. The code: the test of line 115
  looks for the string \<open>short&long\<close> among the pieces of the rule split at \<open>&\<close>, which never
  hold an \<open>&\<close>, so nothing is collapsed: for the short title U+7B2C \<open>1\<close> U+8BDD and the long
  title U+7B2C \<open>1\<close> U+8BDD, a space, U+5F00 U+59CB, the title is the short title, a space,
  and the long title, with the short title twice.
\<close>

theorem rename_title_short_long_twice:
  "rename_title (cfg\<lparr>rename_rule := Some (u ''short&long'')\<rparr>)
     (e\<lparr>short_title := [c_di, 49, c_hua], long_title := [c_di, 49, c_hua, 32, 24320, 22987]\<rparr>)
   = Inr (e\<lparr>short_title := [c_di, 49, c_hua], long_title := [c_di, 49, c_hua, 32, 24320, 22987],
            title := [c_di, 49, c_hua, 32, c_di, 49, c_hua, 32, 24320, 22987]\<rparr>)"
  by (simp add: rename_title_def u_simps split_ord_def render_rule_def endswith_def strip_def
      py_isspace_def c_di_def c_hua_def startswith_def)

text \<open>
  C4. The claim: for an empty long title the title before the cleanups is the short title,
  with no space after it. The code: the second statement of lines 157 to 162 is an \<open>if\<close>,
  not an \<open>elif\<close>, so the title bound by the first is overwritten: for the short title
  U+7B2C \<open>1\<close> U+8BDD and an empty long title the result is the short title and a space,
  before the cleanups and after them; for the short title \<open>1\<close> likewise.
\<close>

theorem get_default_title_empty_long:
  "base_title [c_di, 49, c_hua] [] = [c_di, 49, c_hua, 32]
   \<and> get_default_title (e\<lparr>short_title := [c_di, 49, c_hua], long_title := []\<rparr>)
       = [c_di, 49, c_hua, 32]
   \<and> get_default_title (e\<lparr>short_title := u ''1'', long_title := []\<rparr>) = [c_di, 49, c_hua, 32]"
  by (simp add: get_default_title_def base_title_def cleanup_def fix_num_hua_def fix_num_end_def
      fix_tebie_def fix_short_number_def re_num_di_def re_tebie_def startswith_def c_di_def
      c_hua_def py_isdecimal_def nd_starts_def py_isspace_def numchar_def tebiepian_def
      at_dollar_def u_simps)

text \<open>
  C5. For every buffer with a non-zero flag byte (and a non-empty key-exchange parameter,
  on a reply that is not of an image type), whatever its length: the ciphertext length is
  read from the bytes 1 to 5, the ciphertext is the bytes 5 to 5 plus that length, the key
  material is all that follows, and the result is the decryption of the first 20496
  ciphertext bytes, under that key and the bytes 60 to 76 of the decoded, unquoted
  parameter, followed by the rest of the ciphertext unchanged; a parameter that does not
  decode, and a decryption that raises, raise. The slices are those of Python: a buffer
  shorter than its length field says gives a shorter ciphertext and an empty key. Four
  length bytes are read big-endian; on a buffer laid out as flag, four bytes, a ciphertext
  of the length they write, and key material, the slices are that ciphertext and that key.
  The result is a function of the parameter and of the bytes after the flag: the value of
  the flag, once not zero, does not enter, and repeating the reversal gives the same bytes.
\<close>

theorem decrypt_layout:
  assumes "cpx \<noteq> []" and "flag \<noteq> 0"
  shows "decrypt L cpx True (flag # rest)
         = (case b64decode L (unquote L cpx) of
              Inl x \<Rightarrow> Inl x
            | Inr cpx_char \<Rightarrow>
                (case AES_CBCDecrypt L (take 20496 (take (from_bytes (take 4 rest)) (drop 4 rest)))
                        (drop (from_bytes (take 4 rest) + 4) rest) (take 16 (drop 60 cpx_char)) of
                   Inl x \<Rightarrow> Inl x
                 | Inr head \<Rightarrow>
                     Inr (head @ drop 20496 (take (from_bytes (take 4 rest)) (drop 4 rest)))))
     \<and> from_bytes [a, b, c, d] = unat a * 16777216 + unat b * 65536 + unat c * 256 + unat d
     \<and> (rest = [a, b, c, d] @ ct @ key \<and> from_bytes [a, b, c, d] = length ct
          \<and> b64decode L (unquote L cpx) = Inr decoded \<longrightarrow>
          decrypt L cpx True (flag # rest)
          = (case AES_CBCDecrypt L (take 20496 ct) key (take 16 (drop 60 decoded)) of
               Inl x \<Rightarrow> Inl x
             | Inr head \<Rightarrow> Inr (head @ drop 20496 ct)))
     \<and> (flag' \<noteq> 0 \<longrightarrow> decrypt L cpx True (flag' # rest) = decrypt L cpx True (flag # rest))"
proof -
  have 1: "decrypt L cpx True (flag' # rest) = decrypt L cpx True (flag # rest)" if "flag' \<noteq> 0"
    unfolding decrypt_nonzero [OF assms] decrypt_nonzero [OF assms(1) that] by (rule refl)
  have 2: "decrypt L cpx True (flag # rest)
          = (case AES_CBCDecrypt L (take 20496 ct) key (take 16 (drop 60 decoded)) of
               Inl x \<Rightarrow> Inl x
             | Inr head \<Rightarrow> Inr (head @ drop 20496 ct))"
    if "rest = [a, b, c, d] @ ct @ key" and "from_bytes [a, b, c, d] = length ct"
      and "b64decode L (unquote L cpx) = Inr decoded"
    using assms that(3,1,2) by (rule decrypt_framed)
  from 1 2 show ?thesis
    using decrypt_nonzero [OF assms, of L rest] from_bytes_4 [of a b c d] by blast
qed

theorem decrypt_layout_witness:
  "decrypt ex_lib (replicate 104 65) True ([1] @ [0, 0, 0, 3] @ [10, 11, 12] @ [99])
   = Inr ([12, 11, 10, 99] @ replicate 16 0)
   \<and> decrypt ex_lib (replicate 104 65) True [1, 0, 0] = Inr (replicate 16 0)
   \<and> decrypt ex_lib (replicate 104 65) True [2, 0, 0] = Inr (replicate 16 0)"
proof -
  have h: "replicate 104 65 \<noteq> ([] :: pystr)" "(1 :: 8 word) \<noteq> 0" "(2 :: 8 word) \<noteq> 0"
    "b64decode ex_lib (unquote ex_lib (replicate 104 65)) = Inr (replicate 78 0)"
    by (simp_all add: ex_lib_def)
  have iv: "take 16 (drop 60 (replicate 78 (0 :: 8 word))) = replicate 16 0"
    by simp
  have f: "from_bytes [0, 0, 0, 3] = length [10, 11, 12 :: 8 word]"
    by (simp add: from_bytes_def)
  have g: "from_bytes (take 4 [0, 0]) = 0"
    by (simp add: from_bytes_def)
  have aes: "AES_CBCDecrypt ex_lib = (\<lambda>c k iv. Inr (rev c @ k @ iv))"
    by (simp add: ex_lib_def)
  have 1: "decrypt ex_lib (replicate 104 65) True (1 # [0, 0, 0, 3] @ [10, 11, 12] @ [99])
           = Inr ([12, 11, 10, 99] @ replicate 16 0)"
    using decrypt_layout [OF h(1) h(2), where L = ex_lib
        and rest = "[0, 0, 0, 3] @ [10, 11, 12] @ [99]"
        and a = 0 and b = 0 and c = 0 and d = 3 and ct = "[10, 11, 12]" and key = "[99]"
        and decoded = "replicate 78 0"] f h(4)
    by (simp add: iv aes)
  have 2: "decrypt ex_lib (replicate 104 65) True (1 # [0, 0]) = Inr (replicate 16 0)"
    using decrypt_layout [OF h(1) h(2), where L = ex_lib and rest = "[0, 0]"]
    by (simp add: h(4) iv aes g)
  have 3: "decrypt ex_lib (replicate 104 65) True (2 # [0, 0])
           = decrypt ex_lib (replicate 104 65) True (1 # [0, 0])"
    using decrypt_layout [OF h(1) h(2), where L = ex_lib and rest = "[0, 0]" and flag' = 2] h(3)
    by blast
  from 1 2 3 show ?thesis by simp
qed




text \<open>
  C7. The claim: an \<open>OSError\<close> raised while removing a file never leaves \<open>clear\<close>. The code:
  \<open>clear\<close> has no handler, so for a staged path whose file is missing the \<open>OSError\<close> of
  \<open>os.remove\<close> reaches the caller, and the list is left as it was.
\<close>

theorem clear_raises_OSError:
  "clear [u ''/m/1_1.jpg''] ex_world = (Inl OSError, [u ''/m/1_1.jpg''], ex_world)"
  by (simp add: clear_def os_remove_def io_fault_def ex_world_def)

text \<open>
  C7, as amended. \<open>clear\<close> emits no event; the only exception it raises is \<open>OSError\<close>; when
  the paths are distinct, every file exists and no call faults, it removes exactly those
  files and empties the list; and when, going through the distinct paths from the last one
  backwards with no fault, it comes to a path \<open>p\<close> whose file is missing, \<open>OSError\<close> is
  raised: the files after \<open>p\<close> are removed and off the list, \<open>p\<close> and the paths before it
  stay.
\<close>

theorem clear_propagates:
  "events (snd (snd (clear imgs_path w))) = events w
   \<and> (\<forall>x. fst (clear imgs_path w) = Inl x \<longrightarrow> x = OSError)
   \<and> (io_faults w = [] \<and> distinct imgs_path \<and> set imgs_path \<subseteq> dom (files w) \<longrightarrow>
        clear imgs_path w
        = (Inr (), [], w\<lparr>files := (\<lambda>q. if q \<in> set imgs_path then None else files w q)\<rparr>))
   \<and> (io_faults w = [] \<and> imgs_path = xs @ [p] @ ys \<and> distinct imgs_path
        \<and> set ys \<subseteq> dom (files w) \<and> files w p = None \<longrightarrow>
        clear imgs_path w
        = (Inl OSError, xs @ [p], w\<lparr>files := (\<lambda>q. if q \<in> set ys then None else files w q)\<rparr>))"
proof -
  have a: "events (snd (snd (clear imgs_path w))) = events w"
    using clear_loop_frame [of "length imgs_path" imgs_path w] by (simp add: clear_def)
  have b: "\<forall>x. fst (clear imgs_path w) = Inl x \<longrightarrow> x = OSError"
    using clear_loop_exn [of "length imgs_path" imgs_path w] by (simp add: clear_def)
  have c: "clear imgs_path w
        = (Inr (), [], w\<lparr>files := (\<lambda>q. if q \<in> set imgs_path then None else files w q)\<rparr>)"
    if "io_faults w = []" and "distinct imgs_path" and "set imgs_path \<subseteq> dom (files w)"
    unfolding clear_def using that by (rule clear_loop_ok)
  have d: "clear imgs_path w
        = (Inl OSError, xs @ [p], w\<lparr>files := (\<lambda>q. if q \<in> set ys then None else files w q)\<rparr>)"
    if f: "io_faults w = []" and i: "imgs_path = xs @ [p] @ ys" and ds: "distinct imgs_path"
      and sb: "set ys \<subseteq> dom (files w)" and ms: "files w p = None"
    unfolding clear_def i using f ds [unfolded i] sb ms by (rule clear_loop_missing)
  from a b c d show ?thesis by blast
qed

theorem clear_propagates_witness:
  "clear [u ''/m/1_1.jpg'', u ''/m/1_2.jpg'']
     (ex_world\<lparr>files := [u ''/m/1_1.jpg'' \<mapsto> [1], u ''/m/1_2.jpg'' \<mapsto> [2], u ''/m/x'' \<mapsto> [3]]\<rparr>)
   = (Inr (), [], ex_world\<lparr>files := [u ''/m/x'' \<mapsto> [3]]\<rparr>)
   \<and> clear [u ''/m/1_1.jpg'', u ''/m/1_2.jpg'', u ''/m/1_3.jpg'']
       (ex_world\<lparr>files := [u ''/m/1_1.jpg'' \<mapsto> [1], u ''/m/1_3.jpg'' \<mapsto> [3]]\<rparr>)
     = (Inl OSError, [u ''/m/1_1.jpg'', u ''/m/1_2.jpg''],
        ex_world\<lparr>files := [u ''/m/1_1.jpg'' \<mapsto> [1]]\<rparr>)"
proof -
  let ?f = "[u ''/m/1_1.jpg'' \<mapsto> [1], u ''/m/1_2.jpg'' \<mapsto> [2], u ''/m/x'' \<mapsto> [3::8 word]]"
  let ?g = "[u ''/m/1_1.jpg'' \<mapsto> [1], u ''/m/1_3.jpg'' \<mapsto> [3::8 word]]"
  let ?ps = "[u ''/m/1_1.jpg'', u ''/m/1_2.jpg'']"
  let ?qs = "[u ''/m/1_1.jpg'', u ''/m/1_2.jpg'', u ''/m/1_3.jpg'']"
  have h: "io_faults (ex_world\<lparr>files := ?f\<rparr>) = []" "distinct ?ps"
    "set ?ps \<subseteq> dom (files (ex_world\<lparr>files := ?f\<rparr>))"
    by (simp_all add: ex_world_def u_simps)
  have k: "io_faults (ex_world\<lparr>files := ?g\<rparr>) = []"
    "?qs = [u ''/m/1_1.jpg''] @ [u ''/m/1_2.jpg''] @ [u ''/m/1_3.jpg'']" "distinct ?qs"
    "set [u ''/m/1_3.jpg''] \<subseteq> dom (files (ex_world\<lparr>files := ?g\<rparr>))"
    "files (ex_world\<lparr>files := ?g\<rparr>) (u ''/m/1_2.jpg'') = None"
    by (simp_all add: ex_world_def u_simps)
  have 1: "clear ?ps (ex_world\<lparr>files := ?f\<rparr>)
           = (Inr (), [], (ex_world\<lparr>files := ?f\<rparr>)\<lparr>files :=
                (\<lambda>q. if q \<in> set ?ps then None else files (ex_world\<lparr>files := ?f\<rparr>) q)\<rparr>)"
    using clear_propagates [where imgs_path = ?ps and w = "ex_world\<lparr>files := ?f\<rparr>"] h
    by blast
  have 2: "clear ?qs (ex_world\<lparr>files := ?g\<rparr>)
           = (Inl OSError, [u ''/m/1_1.jpg''] @ [u ''/m/1_2.jpg''],
              (ex_world\<lparr>files := ?g\<rparr>)\<lparr>files :=
                (\<lambda>q. if q \<in> set [u ''/m/1_3.jpg''] then None
                     else files (ex_world\<lparr>files := ?g\<rparr>) q)\<rparr>)"
    using clear_propagates [where imgs_path = ?qs and w = "ex_world\<lparr>files := ?g\<rparr>"
        and xs = "[u ''/m/1_1.jpg'']" and p = "u ''/m/1_2.jpg''" and ys = "[u ''/m/1_3.jpg'']"] k
    by blast
  have 3: "(\<lambda>q. if q \<in> set ?ps then None else files (ex_world\<lparr>files := ?f\<rparr>) q)
           = [u ''/m/x'' \<mapsto> [3]]"
    by (rule ext) (simp add: u_simps)
  have 4: "(\<lambda>q. if q \<in> set [u ''/m/1_3.jpg''] then None
                else files (ex_world\<lparr>files := ?g\<rparr>) q)
           = [u ''/m/1_1.jpg'' \<mapsto> [1]]"
    by (rule ext) (simp add: u_simps)
  show ?thesis
    unfolding 1 2 3 4 by simp
qed

text \<open>
  C8. When no filesystem call faults, the staged paths are distinct files that exist, and
  the names they are moved to are distinct and are not staged paths themselves,
  \<open>saveToFolder\<close> returns with no event, and afterwards the files are those that were
  there, without the staged ones, with the names \<open>staged_names\<close>: the \<open>i\<close>-th input (from 1)
  is at \<open>path_join epi_path\<close> of the index filled with zeros to three digits, a dot and the
  text after the last dot of its path, holding its content (after the EXIF insertion, if
  that applies). The indices 1, 12 and 123 give \<open>001\<close>, \<open>012\<close> and \<open>123\<close>, and two
  names of this form with different indices differ, whatever their extensions are.
\<close>

theorem saveToFolder_stages:
  assumes "io_faults w = []" and "distinct imgs_path" and "set imgs_path \<subseteq> dom (files w)"
    and "set (staged_names L e 1 imgs_path) \<inter> set imgs_path = {}"
    and "distinct (staged_names L e 1 imgs_path)"
  shows "fst (saveToFolder L e imgs_path w) = Inr ()
    \<and> events (snd (saveToFolder L e imgs_path w)) = events w
    \<and> dom (files (snd (saveToFolder L e imgs_path w)))
       = (dom (files w) - set imgs_path) \<union> set (staged_names L e 1 imgs_path)
    \<and> (\<forall>i < length imgs_path.
          files (snd (saveToFolder L e imgs_path w))
            (path_join L (epi_path e)
               (zfill 3 (str_nat (Suc i)) @ [46] @ last (split_on 46 (imgs_path ! i))))
          = Some (exif_stamp L e (imgs_path ! i) (the (files w (imgs_path ! i)))))
    \<and> zfill 3 (str_nat 1) = u ''001'' \<and> zfill 3 (str_nat 12) = u ''012''
    \<and> zfill 3 (str_nat 123) = u ''123''
    \<and> (\<forall>i j x y. zfill 3 (str_nat i) @ [46] @ x = zfill 3 (str_nat j) @ [46] @ y \<longrightarrow> i = j)"
proof -
  obtain w1 where a:
    "(if path_exists (epi_path e) w then (Inr (), w) else os_makedirs (epi_path e) w) = (Inr (), w1)"
    and w1: "io_faults w1 = []" "files w1 = files w" "events w1 = events w"
    using assms(1) by (cases "path_exists (epi_path e) w") (simp_all add: os_makedirs_def io_fault_none)
  have "stage_from L e 1 imgs_path w1
        = (Inr (), w1\<lparr>files := staged_files L e 1 imgs_path (files w1)\<rparr>)"
    using w1 assms(2,3) by (intro stage_from_ok) simp_all
  then have r: "retry 4 (stage_from L e 1 imgs_path) w1
                = (Inr (), w1\<lparr>files := staged_files L e 1 imgs_path (files w)\<rparr>)"
    using w1(2) by (simp add: retry_first_ok)
  have s: "saveToFolder L e imgs_path w
           = (Inr (), w1\<lparr>files := staged_files L e 1 imgs_path (files w)\<rparr>)"
    using r by (simp add: saveToFolder_def a)
  have c: "staged_files L e 1 imgs_path (files w)
             (path_join L (epi_path e)
                (zfill 3 (str_nat (Suc i)) @ [46] @ last (split_on 46 (imgs_path ! i))))
           = Some (exif_stamp L e (imgs_path ! i) (the (files w (imgs_path ! i))))"
    if "i < length imgs_path" for i
    using staged_files_content [OF assms(2) assms(5) assms(4) that, of "files w"]
    by (simp add: staged_name_def)
  have dm: "dom (files (snd (saveToFolder L e imgs_path w)))
       = (dom (files w) - set imgs_path) \<union> set (staged_names L e 1 imgs_path)"
    using staged_files_dom [OF assms(4), of "files w"] by (simp add: s)
  have ct: "\<forall>i < length imgs_path.
          files (snd (saveToFolder L e imgs_path w))
            (path_join L (epi_path e)
               (zfill 3 (str_nat (Suc i)) @ [46] @ last (split_on 46 (imgs_path ! i))))
          = Some (exif_stamp L e (imgs_path ! i) (the (files w (imgs_path ! i))))"
    using c by (simp add: s)
  have ev: "fst (saveToFolder L e imgs_path w) = Inr ()
    \<and> events (snd (saveToFolder L e imgs_path w)) = events w"
    by (simp add: s w1)
  have nm: "\<forall>i j x y. zfill 3 (str_nat i) @ [46] @ x = zfill 3 (str_nat j) @ [46] @ y \<longrightarrow> i = j"
    using index_name_inj by blast
  from ev dm ct zfill_examples nm show ?thesis by blast
qed

theorem saveToFolder_stages_witness:
  "fst (saveToFolder ex_lib ex_episode [u ''/m/1_1.jpg'', u ''/m/1_2.jpg'', u ''/m/1_3.png'']
         (ex_world\<lparr>files := [u ''/m/1_1.jpg'' \<mapsto> [1], u ''/m/1_2.jpg'' \<mapsto> [2],
                              u ''/m/1_3.png'' \<mapsto> [3]]\<rparr>)) = Inr ()
   \<and> dom (files (snd (saveToFolder ex_lib ex_episode
         [u ''/m/1_1.jpg'', u ''/m/1_2.jpg'', u ''/m/1_3.png'']
         (ex_world\<lparr>files := [u ''/m/1_1.jpg'' \<mapsto> [1], u ''/m/1_2.jpg'' \<mapsto> [2],
                              u ''/m/1_3.png'' \<mapsto> [3]]\<rparr>))))
     = {u ''/m/c/001.jpg'', u ''/m/c/002.jpg'', u ''/m/c/003.png''}
   \<and> files (snd (saveToFolder ex_lib ex_episode
         [u ''/m/1_1.jpg'', u ''/m/1_2.jpg'', u ''/m/1_3.png'']
         (ex_world\<lparr>files := [u ''/m/1_1.jpg'' \<mapsto> [1], u ''/m/1_2.jpg'' \<mapsto> [2],
                              u ''/m/1_3.png'' \<mapsto> [3]]\<rparr>))) (u ''/m/c/002.jpg'')
     = Some [2]"
proof -
  let ?ps = "[u ''/m/1_1.jpg'', u ''/m/1_2.jpg'', u ''/m/1_3.png'']"
  let ?w = "ex_world\<lparr>files := [u ''/m/1_1.jpg'' \<mapsto> [1], u ''/m/1_2.jpg'' \<mapsto> [2],
                              u ''/m/1_3.png'' \<mapsto> [3::8 word]]\<rparr>"
  have ext: "last (split_on 46 (u ''/m/1_1.jpg'')) = u ''jpg''"
    "last (split_on 46 (u ''/m/1_2.jpg'')) = u ''jpg''"
    "last (split_on 46 (u ''/m/1_3.png'')) = u ''png''"
    by (simp_all add: u_simps)
  have two: "path_join ex_lib (epi_path ex_episode)
               (zfill 3 (str_nat (Suc 1)) @ [46] @ last (split_on 46 (?ps ! 1)))
             = u ''/m/c/002.jpg''"
    by (simp add: ext zfill_3_digits ex_lib_def ex_episode_def posix_join_def startswith_def
        endswith_def u_simps)
  have names: "staged_names ex_lib ex_episode 1 ?ps
               = [u ''/m/c/001.jpg'', u ''/m/c/002.jpg'', u ''/m/c/003.png'']"
    by (simp add: staged_name_def ext zfill_3_digits ex_lib_def ex_episode_def posix_join_def
        startswith_def endswith_def u_simps)
  have h: "io_faults ?w = []" "distinct ?ps" "set ?ps \<subseteq> dom (files ?w)"
    "set (staged_names ex_lib ex_episode 1 ?ps) \<inter> set ?ps = {}"
    "distinct (staged_names ex_lib ex_episode 1 ?ps)"
    unfolding names by (simp_all add: ex_world_def u_simps)
  have d: "(dom (files ?w) - set ?ps) \<union> set (staged_names ex_lib ex_episode 1 ?ps)
           = {u ''/m/c/001.jpg'', u ''/m/c/002.jpg'', u ''/m/c/003.png''}"
    unfolding names by (auto simp: ex_world_def)
  have c: "exif_stamp ex_lib ex_episode (?ps ! 1) (the (files ?w (?ps ! 1))) = [2]"
    by (simp add: exif_stamp_def ex_episode_def ex_world_def u_simps)
  have i: "1 < length ?ps" by simp
  from saveToFolder_stages [OF h] have
    "fst (saveToFolder ex_lib ex_episode ?ps ?w) = Inr ()"
    "dom (files (snd (saveToFolder ex_lib ex_episode ?ps ?w)))
       = (dom (files ?w) - set ?ps) \<union> set (staged_names ex_lib ex_episode 1 ?ps)"
    "files (snd (saveToFolder ex_lib ex_episode ?ps ?w))
       (path_join ex_lib (epi_path ex_episode)
          (zfill 3 (str_nat (Suc 1)) @ [46] @ last (split_on 46 (?ps ! 1))))
     = Some (exif_stamp ex_lib ex_episode (?ps ! 1) (the (files ?w (?ps ! 1))))"
    using i by blast+
  then show ?thesis
    unfolding d two c by blast
qed

text \<open>
  C9. The claim: the cleanups leave every title that \<open>get_default_title\<close> produced
  unchanged. The code: \<open>re.sub\<close> replaces the one match at the start, so of three
  repetitions of U+7279 U+522B U+7BC7 two are left, and a second run of the cleanups
  removes one more: for the short title U+7279 U+522B U+7BC7 and the long title made of
  three of them, the cleanups change the title the function returned.
\<close>

theorem cleanup_not_idempotent:
  "cleanup (get_default_title
     (ex_episode\<lparr>short_title := tebiepian,
                 long_title := tebiepian @ [32] @ tebiepian @ [32] @ tebiepian\<rparr>))
   \<noteq> get_default_title
     (ex_episode\<lparr>short_title := tebiepian,
                 long_title := tebiepian @ [32] @ tebiepian @ [32] @ tebiepian\<rparr>)"
  by (simp add: get_default_title_def base_title_def cleanup_def fix_num_hua_def
      fix_num_end_def fix_tebie_def fix_short_number_def re_num_di_def re_tebie_def
      startswith_def py_isdecimal_def nd_starts_def py_isspace_def numchar_def tebiepian_def
      at_dollar_def)

text \<open>
  C9, as amended. \<open>get_default_title\<close> reads the short and the long title only, so
  running it again after its result was stored in \<open>title\<close> gives the same title; and the
  cleanups leave the returned title unchanged whenever it does not again start with
  U+7279 U+522B U+7BC7, white space, and U+7279 U+522B U+7BC7.
\<close>

theorem default_title_rerun:
  "get_default_title (e\<lparr>title := get_default_title e\<rparr>) = get_default_title e
   \<and> (re_tebie (get_default_title e) = None
      \<longrightarrow> cleanup (get_default_title e) = get_default_title e)"
  using cleanup_idem [of "base_title (short_title e) (long_title e)"]
  by (simp add: get_default_title_def)

theorem default_title_rerun_witness:
  "get_default_title (ex_episode\<lparr>short_title := tebiepian, long_title := tebiepian @ [32] @ tebiepian\<rparr>)
     = tebiepian
   \<and> cleanup (get_default_title
        (ex_episode\<lparr>short_title := tebiepian, long_title := tebiepian @ [32] @ tebiepian\<rparr>))
     = tebiepian"
proof -
  let ?e = "ex_episode\<lparr>short_title := tebiepian, long_title := tebiepian @ [32] @ tebiepian\<rparr>"
  have v: "get_default_title ?e = tebiepian"
    by (simp add: get_default_title_def base_title_def cleanup_def fix_num_hua_def
      fix_num_end_def fix_tebie_def fix_short_number_def re_num_di_def re_tebie_def
      startswith_def py_isdecimal_def nd_starts_def py_isspace_def numchar_def tebiepian_def
      at_dollar_def)
  have "re_tebie tebiepian = None"
    by (simp add: re_tebie_def startswith_def tebiepian_def)
  with default_title_rerun [of ?e] v show ?thesis by simp
qed

text \<open>
  C10. The suffix table of \<open>init_imgsList\<close> binds the key \<open>1400webp\<close> twice, so that it maps
  to \<open>@1100w.webp\<close>; it has no key \<open>1100webp\<close>; and when the list fetch succeeded with at
  least one image and the configured format is not a key of the table, \<open>init_imgsList\<close>
  raises \<open>KeyError\<close> (the lookup is made once for each image, so an empty list makes none).
\<close>

theorem img_format_table_partial:
  "map snd (filter (\<lambda>kv. fst kv = u ''1400webp'') img_format_list)
     = [u ''@1400w.webp'', u ''@1100w.webp'']
   \<and> dict_of img_format_list (u ''1400webp'') = Some (u ''@1100w.webp'')
   \<and> dict_of img_format_list (u ''1100webp'') = None
   \<and> (img_format cfg = Some fmt \<and> dict_of img_format_list fmt = None
        \<and> retry (retries_small L) post_image_index w = (Inr imgs, w1) \<and> imgs \<noteq> []
      \<longrightarrow> init_imgsList L cfg e w = (Inl KeyError, e, w1))"
proof -
  have "init_imgsList L cfg e w = (Inl KeyError, e, w1)"
    if "img_format cfg = Some fmt" and "dict_of img_format_list fmt = None"
      and "retry (retries_small L) post_image_index w = (Inr imgs, w1)" and "imgs \<noteq> []"
    using that add_suffix_KeyError [of fmt imgs] by (simp add: init_imgsList_def)
  moreover have "map snd (filter (\<lambda>kv. fst kv = u ''1400webp'') img_format_list)
     = [u ''@1400w.webp'', u ''@1100w.webp'']"
    by (simp add: img_format_list_def u_simps)
  moreover have "dict_of img_format_list (u ''1400webp'') = Some (u ''@1100w.webp'')"
    by (simp add: dict_of_def img_format_list_def u_simps)
  moreover have "dict_of img_format_list (u ''1100webp'') = None"
    by (simp add: dict_of_def img_format_list_def u_simps)
  ultimately show ?thesis by blast
qed

theorem img_format_table_partial_witness:
  "init_imgsList ex_lib (ex_cfg\<lparr>img_format := Some (u ''1100webp'')\<rparr>) ex_episode
     (ex_world\<lparr>list_net := [TransportError, Reply \<lparr>l_status = 200, l_images = [u ''/b'']\<rparr>]\<rparr>)
   = (Inl KeyError, ex_episode, ex_world)"
proof -
  have d: "dict_of img_format_list (u ''1100webp'') = None"
    by (simp add: dict_of_def img_format_list_def u_simps)
  have r: "retry (retries_small ex_lib) post_image_index
             (ex_world\<lparr>list_net := [TransportError, Reply \<lparr>l_status = 200, l_images = [u ''/b'']\<rparr>]\<rparr>)
           = (Inr [u ''/b''], ex_world)"
    by (simp add: ex_lib_def ex_world_def post_image_index_def numeral_2_eq_2)
  show ?thesis
    using img_format_table_partial [where cfg = "ex_cfg\<lparr>img_format := Some (u ''1100webp'')\<rparr>"
        and fmt = "u ''1100webp''" and L = ex_lib and imgs = "[u ''/b'']" and ?w1.0 = ex_world
        and e = ex_episode] d r
    by simp
qed

end
